theory Spec2Isabelle
  imports Main
begin

section \<open>Text\<close>

text \<open>
  A Python \<open>str\<close> is a sequence of Unicode code points; \<open>len\<close>, slicing,
  \<open>strip\<close> and \<open>splitlines\<close> all count code points. The model keeps them as natural
  numbers. \<open>u\<close> turns an ASCII literal into such a string.
\<close>

type_synonym codepoint = nat
type_synonym pystr = "codepoint list"

definition u :: "string \<Rightarrow> pystr" where
  "u s = map of_char s"

text \<open>
  \<open>str.isspace\<close> on one character, the set that \<open>str.strip()\<close> removes and that the
  regular expression class \<open>\s\<close> matches on \<open>str\<close> patterns.
\<close>

definition is_space :: "codepoint \<Rightarrow> bool" where
  "is_space c \<longleftrightarrow>
     (9 \<le> c \<and> c \<le> 13) \<or> (28 \<le> c \<and> c \<le> 32) \<or> c = 133 \<or> c = 160 \<or> c = 5760 \<or>
     (8192 \<le> c \<and> c \<le> 8202) \<or> c = 8232 \<or> c = 8233 \<or> c = 8239 \<or> c = 8287 \<or> c = 12288"

text \<open>
  The line boundaries of \<open>str.splitlines()\<close>: LF, VT, FF, CR, FS, GS, RS, NEL, LS, PS
  (and CR LF taken as one boundary).
\<close>

definition is_linebreak :: "codepoint \<Rightarrow> bool" where
  "is_linebreak c \<longleftrightarrow>
     (10 \<le> c \<and> c \<le> 13) \<or> (28 \<le> c \<and> c \<le> 30) \<or> c = 133 \<or> c = 8232 \<or> c = 8233"

definition lstrip :: "pystr \<Rightarrow> pystr" where
  "lstrip s = dropWhile is_space s"

definition rstrip :: "pystr \<Rightarrow> pystr" where
  "rstrip s = rev (dropWhile is_space (rev s))"

definition strip :: "pystr \<Rightarrow> pystr" where
  "strip s = rstrip (lstrip s)"

definition startswith :: "pystr \<Rightarrow> pystr \<Rightarrow> bool" where
  "startswith s p \<longleftrightarrow> take (length p) s = p"

text \<open>
  \<open>str.splitlines()\<close>: while text is left, the line runs up to the next line boundary,
  the boundary is consumed (CR LF as one), and the line is added. A trailing boundary
  opens no further line, and the empty string has no lines.
\<close>

definition skip_eol :: "pystr \<Rightarrow> pystr" where
  "skip_eol s =
     (case s of
        [] \<Rightarrow> []
      | c # cs \<Rightarrow> (case cs of
                    [] \<Rightarrow> []
                  | d # ds \<Rightarrow> if c = 13 \<and> d = 10 then ds else cs))"

function splitlines :: "pystr \<Rightarrow> pystr list" where
  "splitlines s =
     (if s = [] then []
      else takeWhile (\<lambda>c. \<not> is_linebreak c) s
           # splitlines (skip_eol (dropWhile (\<lambda>c. \<not> is_linebreak c) s)))"
  by pat_completeness auto
termination
proof (relation "measure length")
  show "wf (measure length)" by simp
next
  fix s :: pystr
  assume ne: "s \<noteq> []"
  let ?r = "dropWhile (\<lambda>c. \<not> is_linebreak c) s"
  show "(skip_eol ?r, s) \<in> measure length"
  proof (cases "?r = []")
    case True
    have "skip_eol ?r = skip_eol []" by (simp only: True)
    with ne show ?thesis by (simp add: skip_eol_def)
  next
    case False
    then have "length (skip_eol ?r) < length ?r"
      by (auto simp: skip_eol_def split: list.splits)
    also have "length ?r \<le> length s" by (rule length_dropWhile_le)
    finally show ?thesis by simp
  qed
qed

declare splitlines.simps [simp del]

section \<open>Sections and items\<close>

text \<open>
  \<open>re.split(r'^## ', md, flags=re.MULTILINE)\<close>: with \<open>MULTILINE\<close> the anchor matches at
  the start of the text and right after every LF (and after nothing else). The scan goes
  left to right; at a match the text collected so far is a piece, the three matched
  characters are dropped and the scan goes on after them, no longer at a line start.
  \<open>bol\<close> says whether the position is at a line start, \<open>acc\<close> is the current piece,
  reversed.
\<close>

definition heading :: pystr where
  "heading = u ''## ''"

function re_split_from :: "bool \<Rightarrow> pystr \<Rightarrow> pystr \<Rightarrow> pystr list" where
  "re_split_from bol acc s =
     (if s = [] then [rev acc]
      else if bol \<and> startswith s heading
           then rev acc # re_split_from False [] (drop 3 s)
           else re_split_from (hd s = 10) (hd s # acc) (tl s))"
  by pat_completeness auto
termination
  by (relation "measure (\<lambda>(bol, acc, s). length s)") auto

declare re_split_from.simps [simp del]

definition re_split :: "pystr \<Rightarrow> pystr list" where
  "re_split md = re_split_from True [] md"

text \<open>\<open>sections = re.split(...)[1:]\<close>: the text before the first heading is dropped.\<close>

definition sections :: "pystr \<Rightarrow> pystr list" where
  "sections md = drop 1 (re_split md)"

type_synonym news_item = "pystr \<times> pystr"

definition bullet :: pystr where
  "bullet = u ''- ''"

text \<open>
  The inner loop \<open>for line in lines[1:]\<close>, with \<open>items\<close> the list built so far:
  the line is trimmed, and when it starts with \<open>- \<close> the pair of the section's date
  and \<open>line[2:]\<close> is appended.
\<close>

fun line_loop :: "pystr \<Rightarrow> pystr list \<Rightarrow> news_item list \<Rightarrow> news_item list" where
  "line_loop date [] items = items"
| "line_loop date (line # lines) items =
     (let line' = strip line in
      if startswith line' bullet
      then line_loop date lines (items @ [(date, drop 2 line')])
      else line_loop date lines items)"

text \<open>
  The outer loop \<open>for section in sections\<close>: a section whose trimmed text has no lines
  is passed over (\<open>continue\<close>); otherwise the first line, trimmed, is the date and the
  other lines go through the inner loop.
\<close>

fun section_loop :: "pystr list \<Rightarrow> news_item list \<Rightarrow> news_item list" where
  "section_loop [] items = items"
| "section_loop (section # rest) items =
     (case splitlines (strip section) of
        [] \<Rightarrow> section_loop rest items
      | first # lines \<Rightarrow> section_loop rest (line_loop (strip first) lines items))"

definition extract_items :: "pystr \<Rightarrow> news_item list" where
  "extract_items md = section_loop (sections md) []"

section \<open>Dates\<close>

datatype py_error = ValueError | FileNotFoundError

datatype tzinfo = ZoneInfo string

text \<open>
  A \<open>datetime\<close>, down to the second; \<open>tzinfo = None\<close> is a naive value, as
  \<open>strptime\<close> returns it for formats without a zone directive.
\<close>

record datetime =
  year :: nat
  month :: nat
  day :: nat
  hour :: nat
  minute :: nat
  second :: nat
  tzinfo :: "tzinfo option"

text \<open>
  The class \<open>\d\<close> of a \<open>str\<close> pattern is the Unicode category Nd, which comes in runs
  of ten code points for the digits 0 to 9; \<open>digit_zeros\<close> lists the zero of every run
  (Unicode 14, the table of CPython 3.11). \<open>int\<close> reads the same digits.
\<close>

definition digit_zeros :: "codepoint list" where
  "digit_zeros =
     [48, 1632, 1776, 1984, 2406, 2534, 2662, 2790, 2918, 3046, 3174, 3302, 3430, 3558,
      3664, 3792, 3872, 4160, 4240, 6112, 6160, 6470, 6608, 6784, 6800, 6992, 7088, 7232,
      7248, 42528, 43216, 43264, 43472, 43504, 43600, 44016, 65296, 66720, 68912, 69734,
      69872, 69942, 70096, 70384, 70736, 70864, 71248, 71360, 71472, 71904, 72016, 72784,
      73040, 73120, 92768, 92864, 93008, 120782, 120792, 120802, 120812, 120822, 123200,
      123632, 125264, 130032]"

definition digit_value :: "codepoint \<Rightarrow> nat option" where
  "digit_value c = map_option (\<lambda>z. c - z) (find (\<lambda>z. z \<le> c \<and> c < z + 10) digit_zeros)"

text \<open>
  \<open>int(s)\<close> on the text of a group: surrounding whitespace is ignored and what is left
  must be decimal digits, at least one (signs and underscores never occur in a group).
\<close>

definition py_int :: "pystr \<Rightarrow> nat option" where
  "py_int s =
     (let t = strip s in
      if t \<noteq> [] \<and> list_all (\<lambda>c. digit_value c \<noteq> None) t
      then Some (foldl (\<lambda>n c. 10 * n + the (digit_value c)) 0 t)
      else None)"

text \<open>
  The directives the two formats use, with the regular expression of each from the table
  of \<open>_strptime.TimeRE\<close>:
  \<^item> \<open>%Y\<close>: \<open>\d\d\d\d\<close>
  \<^item> \<open>%m\<close>: \<open>1[0-2]|0[1-9]|[1-9]\<close>
  \<^item> \<open>%d\<close>: \<open>3[0-1]|[1-2]\d|0[1-9]|[1-9]| [1-9]\<close>
  \<^item> \<open>%H\<close>: \<open>2[0-3]|[0-1]\d|\d\<close>
  \<^item> \<open>%M\<close>: \<open>[0-5]\d|\d\<close>

  An alternative is a sequence of character classes; alternatives are tried left to right.
\<close>

datatype directive = PctY | Pctm | Pctd | PctH | PctM

type_synonym charclass = "codepoint \<Rightarrow> bool"

definition dig :: charclass where
  "dig c \<longleftrightarrow> digit_value c \<noteq> None"

definition rng :: "char \<Rightarrow> char \<Rightarrow> charclass" where
  "rng a b c \<longleftrightarrow> of_char a \<le> c \<and> c \<le> of_char b"

definition chr :: "char \<Rightarrow> charclass" where
  "chr a c \<longleftrightarrow> c = of_char a"

fun alternatives :: "directive \<Rightarrow> charclass list list" where
  "alternatives PctY = [[dig, dig, dig, dig]]"
| "alternatives Pctm =
     [[chr CHR ''1'', rng CHR ''0'' CHR ''2''], [chr CHR ''0'', rng CHR ''1'' CHR ''9''],
      [rng CHR ''1'' CHR ''9'']]"
| "alternatives Pctd =
     [[chr CHR ''3'', rng CHR ''0'' CHR ''1''], [rng CHR ''1'' CHR ''2'', dig],
      [chr CHR ''0'', rng CHR ''1'' CHR ''9''], [rng CHR ''1'' CHR ''9''],
      [chr CHR '' '', rng CHR ''1'' CHR ''9'']]"
| "alternatives PctH =
     [[chr CHR ''2'', rng CHR ''0'' CHR ''3''], [rng CHR ''0'' CHR ''1'', dig], [dig]]"
| "alternatives PctM = [[rng CHR ''0'' CHR ''5'', dig], [dig]]"

text \<open>One alternative against the start of the text: the matched text and the rest.\<close>

fun match_classes :: "charclass list \<Rightarrow> pystr \<Rightarrow> (pystr \<times> pystr) option" where
  "match_classes [] s = Some ([], s)"
| "match_classes (p # ps) [] = None"
| "match_classes (p # ps) (c # cs) =
     (if p c then map_option (\<lambda>(m, r). (c # m, r)) (match_classes ps cs) else None)"

text \<open>
  A compiled format: a directive's group, a literal character, or \<open>\s+\<close>, which is what
  \<open>TimeRE.pattern\<close> puts in the place of whitespace in the format.
\<close>

datatype re_part = Group directive | Lit char | Spaces

text \<open>\<open>\s+\<close> is greedy: the rests after one or more whitespace characters, longest run first.\<close>

fun space_rests :: "pystr \<Rightarrow> pystr list" where
  "space_rests [] = []"
| "space_rests (c # cs) = (if is_space c then space_rests cs @ [cs] else [])"

text \<open>
  All the ways the pattern matches at the start of the text, in the order in which a
  backtracking matcher finds them; each gives the text of every group and the text left
  over. \<open>re.match\<close> returns the first.
\<close>

fun re_match :: "re_part list \<Rightarrow> pystr \<Rightarrow> ((directive \<times> pystr) list \<times> pystr) list" where
  "re_match [] s = [([], s)]"
| "re_match (Lit a # ps) s =
     (case s of [] \<Rightarrow> [] | c # cs \<Rightarrow> if c = of_char a then re_match ps cs else [])"
| "re_match (Spaces # ps) s = concat (map (re_match ps) (space_rests s))"
| "re_match (Group D # ps) s =
     concat (map (\<lambda>alt. case match_classes alt s of
                           None \<Rightarrow> []
                         | Some (m, r) \<Rightarrow> map (\<lambda>(groups, rest). ((D, m) # groups, rest))
                                             (re_match ps r))
                 (alternatives D))"

definition is_leap :: "nat \<Rightarrow> bool" where
  "is_leap y \<longleftrightarrow> y mod 4 = 0 \<and> (y mod 100 \<noteq> 0 \<or> y mod 400 = 0)"

definition days_in_month :: "nat \<Rightarrow> nat \<Rightarrow> nat" where
  "days_in_month y m =
     (if m = 2 then (if is_leap y then 29 else 28)
      else if m = 4 \<or> m = 6 \<or> m = 9 \<or> m = 11 then 30 else 31)"

text \<open>
  The constructor \<open>date(year, month, day)\<close> raises \<open>ValueError\<close> outside these ranges.
\<close>

definition valid_date :: "nat \<Rightarrow> nat \<Rightarrow> nat \<Rightarrow> bool" where
  "valid_date y m d \<longleftrightarrow>
     1 \<le> y \<and> y \<le> 9999 \<and> 1 \<le> m \<and> m \<le> 12 \<and> 1 \<le> d \<and> d \<le> days_in_month y m"

text \<open>
  The value of a group, or the default of \<open>_strptime\<close> when the format has no such group.
\<close>

definition group_int :: "(directive \<times> pystr) list \<Rightarrow> directive \<Rightarrow> nat \<Rightarrow> nat option" where
  "group_int found D dflt = (case map_of found D of None \<Rightarrow> Some dflt | Some m \<Rightarrow> py_int m)"

text \<open>
  \<open>datetime.strptime(data_string, format)\<close> for a compiled format: no match, text left
  over after the match, and a day that the month does not have are each a
  \<open>ValueError\<close>. Year, month and day default to 1900, 1 and 1, hour and minute to 0;
  seconds are always 0 here.
\<close>

definition strptime :: "pystr \<Rightarrow> re_part list \<Rightarrow> py_error + datetime" where
  "strptime data_string format =
     (case re_match format data_string of
        [] \<Rightarrow> Inl ValueError
      | (found, rest) # _ \<Rightarrow>
          if rest \<noteq> [] then Inl ValueError
          else (case (group_int found PctY 1900, group_int found Pctm 1, group_int found Pctd 1,
                      group_int found PctH 0, group_int found PctM 0) of
                  (Some y, Some m, Some d, Some h, Some mi) \<Rightarrow>
                    if valid_date y m d
                    then Inr \<lparr>year = y, month = m, day = d, hour = h, minute = mi, second = 0,
                              tzinfo = None\<rparr>
                    else Inl ValueError
                | _ \<Rightarrow> Inl ValueError))"

text \<open>The format \<open>'%Y-%m-%d %H:%M'\<close>, compiled.\<close>

definition fmt_Ymd_HM :: "re_part list" where
  "fmt_Ymd_HM =
     [Group PctY, Lit CHR ''-'', Group Pctm, Lit CHR ''-'', Group Pctd, Spaces,
      Group PctH, Lit CHR '':'', Group PctM]"

text \<open>The format \<open>'%Y-%m-%d'\<close>, compiled.\<close>

definition fmt_Ymd :: "re_part list" where
  "fmt_Ymd = [Group PctY, Lit CHR ''-'', Group Pctm, Lit CHR ''-'', Group Pctd]"

definition central :: tzinfo where
  "central = ZoneInfo ''America/Chicago''"

text \<open>\<open>dt.replace(tzinfo=tz)\<close>: the same fields with the zone attached.\<close>

definition replace_tzinfo :: "datetime \<Rightarrow> tzinfo \<Rightarrow> datetime" where
  "replace_tzinfo dt tz = dt\<lparr>tzinfo := Some tz\<rparr>"

text \<open>
  The \<open>try\<close>/\<open>except ValueError\<close> of the entry loop: the format with a time first, then
  the date alone; an error of the second attempt is not caught.
\<close>

definition pubdate_of :: "pystr \<Rightarrow> py_error + datetime" where
  "pubdate_of date =
     (case strptime date fmt_Ymd_HM of
        Inr dt \<Rightarrow> Inr (replace_tzinfo dt central)
      | Inl e \<Rightarrow>
          if e = ValueError
          then (case strptime date fmt_Ymd of
                  Inr dt \<Rightarrow> Inr (replace_tzinfo dt central)
                | Inl e' \<Rightarrow> Inl e')
          else Inl e)"

section \<open>The feed\<close>

text \<open>
  The feed is built with the library \<open>feedgen\<close>, whose code is not part of the
  repository; the model keeps what the script relies on, as the library documents it:
  \<^item> \<open>FeedGenerator()\<close> records the time of its creation as the feed's
    \<open>lastBuildDate\<close>, which the RSS output carries;
  \<^item> \<open>add_entry(feedEntry=None, order='prepend')\<close> creates an entry and, with the default
    order that the script uses, inserts it at the front of the entry list;
  \<^item> \<open>rss_file\<close> writes the channel fields and then one \<open>item\<close> per entry, in the order
    of the entry list.
  The time of creation is kept to the second, as the output prints it.
  \<open>markdown2.markdown\<close> is a parameter of the model.
\<close>

record feed_entry =
  title :: pystr
  description :: pystr
  pubDate :: "datetime option"

record feed_generator =
  feed_title :: pystr
  feed_link :: pystr
  feed_description :: pystr
  lastBuildDate :: datetime
  feed_entries :: "feed_entry list"

definition FeedGenerator :: "datetime \<Rightarrow> feed_generator" where
  "FeedGenerator now =
     \<lparr>feed_title = [], feed_link = [], feed_description = [], lastBuildDate = now,
      feed_entries = []\<rparr>"

definition FeedEntry :: feed_entry where
  "FeedEntry = \<lparr>title = [], description = [], pubDate = None\<rparr>"

text \<open>
  \<open>fe = fg.add_entry()\<close> and the setters called on \<open>fe\<close>: the new entry stands at the
  front of the list, and a setter on it changes the list's first entry.
\<close>

definition add_entry :: "feed_generator \<Rightarrow> feed_generator" where
  "add_entry fg = fg\<lparr>feed_entries := FeedEntry # feed_entries fg\<rparr>"

definition on_new_entry :: "(feed_entry \<Rightarrow> feed_entry) \<Rightarrow> feed_generator \<Rightarrow> feed_generator" where
  "on_new_entry f fg =
     (case feed_entries fg of
        [] \<Rightarrow> fg
      | fe # fes \<Rightarrow> fg\<lparr>feed_entries := f fe # fes\<rparr>)"

text \<open>
  The loop \<open>for date, content in items\<close>. A date that neither format parses raises out
  of the loop: the entries after it are not reached and the generator is lost.
\<close>

fun entry_loop ::
  "(pystr \<Rightarrow> pystr) \<Rightarrow> news_item list \<Rightarrow> feed_generator \<Rightarrow> py_error + feed_generator" where
  "entry_loop markdown [] fg = Inr fg"
| "entry_loop markdown ((date, content) # items) fg =
     (let fg1 = add_entry fg;
          fg2 = on_new_entry (\<lambda>fe. fe\<lparr>title := take 60 content\<rparr>) fg1;
          fg3 = on_new_entry (\<lambda>fe. fe\<lparr>description := markdown content\<rparr>) fg2
      in case pubdate_of date of
           Inl e \<Rightarrow> Inl e
         | Inr pubdate \<Rightarrow>
             entry_loop markdown items (on_new_entry (\<lambda>fe. fe\<lparr>pubDate := Some pubdate\<rparr>) fg3))"

text \<open>The document that \<open>rss_file\<close> writes: the channel and its items, in order.\<close>

record rss_document =
  channel_title :: pystr
  channel_link :: pystr
  channel_description :: pystr
  channel_lastBuildDate :: datetime
  channel_items :: "feed_entry list"

definition rss_document_of :: "feed_generator \<Rightarrow> rss_document" where
  "rss_document_of fg =
     \<lparr>channel_title = feed_title fg, channel_link = feed_link fg,
      channel_description = feed_description fg, channel_lastBuildDate = lastBuildDate fg,
      channel_items = feed_entries fg\<rparr>"

text \<open>
  The two files of a run: \<open>newsfeed.md\<close> as the text that \<open>f.read()\<close> returns, when the
  file is there, and \<open>newsfeed.xml\<close> as the document last written to it, when there is
  one.
\<close>

record files =
  newsfeed_md :: "pystr option"
  newsfeed_xml :: "rss_document option"

datatype exit_status = Exit0 | Uncaught py_error

text \<open>
  The script from top to bottom. \<open>now\<close> is the clock at the creation of the generator.
  An exception ends the run with the files as they were; \<open>rss_file\<close> is the last
  statement and replaces \<open>newsfeed.xml\<close>.
\<close>

definition md2rss :: "(pystr \<Rightarrow> pystr) \<Rightarrow> datetime \<Rightarrow> files \<Rightarrow> exit_status \<times> files" where
  "md2rss markdown now fs =
     (case newsfeed_md fs of
        None \<Rightarrow> (Uncaught FileNotFoundError, fs)
      | Some md \<Rightarrow>
          (let items = extract_items md;
               fg = (FeedGenerator now)
                      \<lparr>feed_title := u ''SQL Saturday News'',
                       feed_link := u ''https://github.com/KennyNeal/SQL-Saturday-2025'',
                       feed_description :=
                         u ''Latest news and updates for SQL Saturday Baton Rouge 2025''\<rparr>
           in case entry_loop markdown items fg of
                Inl e \<Rightarrow> (Uncaught e, fs)
              | Inr fg' \<Rightarrow> (Exit0, fs\<lparr>newsfeed_xml := Some (rss_document_of fg')\<rparr>)))"

section \<open>The zone\<close>

text \<open>
  \<open>zoneinfo\<close> takes the rules of a zone from the IANA time zone database, which is data
  outside the repository. For America/Chicago the rule in force since 2007 is: daylight
  time (UTC-5) from the second Sunday of March, 02:00 standard time, to the first Sunday
  of November, 02:00 daylight time; standard time (UTC-6) otherwise. For a wall time
  with \<open>fold = 0\<close>, as \<open>replace\<close> leaves it, the hour skipped in March counts as
  standard time and the hour repeated in November as daylight time. Years before 2007
  follow older rules, which are not reproduced: the offset is \<open>None\<close> there, as it is
  for a naive value and for another zone.
\<close>

definition days_before_year :: "nat \<Rightarrow> nat" where
  "days_before_year y = (y - 1) * 365 + (y - 1) div 4 - (y - 1) div 100 + (y - 1) div 400"

definition days_before_month :: "nat \<Rightarrow> nat \<Rightarrow> nat" where
  "days_before_month y m = sum_list (map (days_in_month y) [1..<m])"

definition toordinal :: "nat \<Rightarrow> nat \<Rightarrow> nat \<Rightarrow> nat" where
  "toordinal y m d = days_before_year y + days_before_month y m + d"

text \<open>\<open>date.weekday()\<close>: Monday is 0 and Sunday is 6.\<close>

definition weekday :: "nat \<Rightarrow> nat \<Rightarrow> nat \<Rightarrow> nat" where
  "weekday y m d = (toordinal y m d + 6) mod 7"

text \<open>The first Sunday of month \<open>m\<close> that is not before day \<open>d\<close>.\<close>

definition sunday_from :: "nat \<Rightarrow> nat \<Rightarrow> nat \<Rightarrow> nat" where
  "sunday_from y m d = d + (6 - weekday y m d) mod 7"

definition central_dst :: "datetime \<Rightarrow> bool" where
  "central_dst dt \<longleftrightarrow>
     (let start = sunday_from (year dt) 3 8; stop = sunday_from (year dt) 11 1 in
      (3 < month dt \<or> month dt = 3 \<and> (start < day dt \<or> day dt = start \<and> 3 \<le> hour dt)) \<and>
      (month dt < 11 \<or> month dt = 11 \<and> (day dt < stop \<or> day dt = stop \<and> hour dt < 2)))"

text \<open>\<open>dt.utcoffset()\<close>, in minutes.\<close>

definition utcoffset :: "datetime \<Rightarrow> int option" where
  "utcoffset dt =
     (if tzinfo dt = Some central \<and> 2007 \<le> year dt
      then Some (if central_dst dt then - 300 else - 360)
      else None)"

section \<open>Well-formed documents and the documented date formats\<close>

text \<open>
  The date string that the outer loop takes for a section, when it takes one.
\<close>

definition section_date :: "pystr \<Rightarrow> pystr option" where
  "section_date section =
     (case splitlines (strip section) of [] \<Rightarrow> None | first # lines \<Rightarrow> Some (strip first))"

definition date_ok :: "pystr \<Rightarrow> bool" where
  "date_ok date = (case pubdate_of date of Inl e \<Rightarrow> False | Inr dt \<Rightarrow> True)"



text \<open>
  The two formats as the specification writes them, \<open>YYYY-MM-DD\<close> and
  \<open>YYYY-MM-DD HH:MM\<close>: every field zero-padded to its full width, one space before the
  time.
\<close>

definition pad2 :: "nat \<Rightarrow> pystr" where
  "pad2 n = [48 + n div 10 mod 10, 48 + n mod 10]"

definition pad4 :: "nat \<Rightarrow> pystr" where
  "pad4 n = [48 + n div 1000 mod 10, 48 + n div 100 mod 10, 48 + n div 10 mod 10, 48 + n mod 10]"

definition iso_date :: "nat \<Rightarrow> nat \<Rightarrow> nat \<Rightarrow> pystr" where
  "iso_date y m d = pad4 y @ u ''-'' @ pad2 m @ u ''-'' @ pad2 d"

definition iso_date_time :: "nat \<Rightarrow> nat \<Rightarrow> nat \<Rightarrow> nat \<Rightarrow> nat \<Rightarrow> pystr" where
  "iso_date_time y m d h mi = iso_date y m d @ u '' '' @ pad2 h @ u '':'' @ pad2 mi"

text \<open>
  Whether a string has the shape of one of the two formats: ASCII digits in the digit
  places and the separators in theirs.
\<close>

definition ascii_digit :: "codepoint \<Rightarrow> bool" where
  "ascii_digit c \<longleftrightarrow> 48 \<le> c \<and> c \<le> 57"

fun has_shape :: "string \<Rightarrow> pystr \<Rightarrow> bool" where
  "has_shape [] [] = True"
| "has_shape (p # ps) (c # cs) =
     ((if p = CHR ''9'' then ascii_digit c else c = of_char p) \<and> has_shape ps cs)"
| "has_shape _ _ = False"

definition documented_format :: "pystr \<Rightarrow> bool" where
  "documented_format s \<longleftrightarrow> has_shape ''9999-99-99'' s \<or> has_shape ''9999-99-99 99:99'' s"

text \<open>The inputs of the examples.\<close>

definition example_now :: datetime where
  "example_now =
     \<lparr>year = 2026, month = 11, day = 3, hour = 12, minute = 0, second = 0,
      tzinfo = Some (ZoneInfo ''UTC'')\<rparr>"


definition example_md :: pystr where
  "example_md =
     u ''## 2025-05-01'' @ [10] @ u ''- Registration opens'' @ [10, 10] @
     u ''## 2025-05-01 09:00'' @ [10] @ u ''- Keynote speaker announced'' @ [10] @
     u ''- Venue map published'' @ [10]"

definition example_files :: files where
  "example_files = \<lparr>newsfeed_md = Some example_md, newsfeed_xml = None\<rparr>"

definition example_long_md :: pystr where
  "example_long_md =
     u ''## 2025-06-01'' @ [10] @
     u ''- Call for speakers is open: send your abstract before the end of June'' @ [10]"

definition example_undated_md :: pystr where
  "example_undated_md = u ''## not-a-date'' @ [10] @ u ''Details to follow.'' @ [10]"

definition example_bad_md :: pystr where
  "example_bad_md =
     u ''## 2025-05-01'' @ [10] @ u ''- Registration opens'' @ [10, 10] @
     u ''## not-a-date'' @ [10] @ u ''- Venue map published'' @ [10]"

text \<open>
  The entry that one pass of the entry loop leaves in the generator, for an item whose
  date parses.
\<close>

definition entry_of :: "(pystr \<Rightarrow> pystr) \<Rightarrow> news_item \<Rightarrow> feed_entry" where
  "entry_of markdown item =
     \<lparr>title = take 60 (snd item), description = markdown (snd item),
      pubDate = (case pubdate_of (fst item) of Inl e \<Rightarrow> None | Inr dt \<Rightarrow> Some dt)\<rparr>"

section \<open>Evaluation\<close>

lemmas text_eval =
  u_def is_space_def is_linebreak_def lstrip_def rstrip_def strip_def startswith_def
  skip_eol_def splitlines.simps heading_def re_split_from.simps re_split_def sections_def
  bullet_def extract_items_def

lemmas date_eval =
  pubdate_of_def strptime_def fmt_Ymd_HM_def fmt_Ymd_def group_int_def py_int_def
  digit_value_def digit_zeros_def dig_def rng_def chr_def valid_date_def days_in_month_def
  is_leap_def replace_tzinfo_def u_def is_space_def lstrip_def rstrip_def strip_def

lemma example_items:
  "extract_items example_md =
     [(u ''2025-05-01'', u ''Registration opens''),
      (u ''2025-05-01 09:00'', u ''Keynote speaker announced''),
      (u ''2025-05-01 09:00'', u ''Venue map published'')]"
  by (simp add: example_md_def text_eval)

lemma example_long_items:
  "extract_items example_long_md =
     [(u ''2025-06-01'',
       u ''Call for speakers is open: send your abstract before the end of June'')]"
  by (simp add: example_long_md_def text_eval)

lemma example_undated_items: "extract_items example_undated_md = []"
  by (simp add: example_undated_md_def text_eval)

lemma pubdate_2025_05_01:
  "pubdate_of (u ''2025-05-01'') =
     Inr \<lparr>year = 2025, month = 5, day = 1, hour = 0, minute = 0, second = 0,
          tzinfo = Some central\<rparr>"
  by (simp add: date_eval)

lemma pubdate_2025_05_01_0900:
  "pubdate_of (u ''2025-05-01 09:00'') =
     Inr \<lparr>year = 2025, month = 5, day = 1, hour = 9, minute = 0, second = 0,
          tzinfo = Some central\<rparr>"
  by (simp add: date_eval)

lemma pubdate_2025_06_01:
  "pubdate_of (u ''2025-06-01'') =
     Inr \<lparr>year = 2025, month = 6, day = 1, hour = 0, minute = 0, second = 0,
          tzinfo = Some central\<rparr>"
  by (simp add: date_eval)

lemma pubdate_not_a_date: "pubdate_of (u ''not-a-date'') = Inl ValueError"
  by (simp add: date_eval)

section \<open>The extraction loops\<close>

lemma line_loop_eq:
  "line_loop date lines items =
     items @ map (\<lambda>l. (date, drop 2 (strip l))) (filter (\<lambda>l. startswith (strip l) bullet) lines)"
  by (induction lines arbitrary: items) (simp_all add: Let_def)

lemma section_loop_eq:
  "section_loop secs items =
     items @ concat (map (\<lambda>section. case splitlines (strip section) of
                            [] \<Rightarrow> []
                          | first # lines \<Rightarrow>
                              map (\<lambda>l. (strip first, drop 2 (strip l)))
                                (filter (\<lambda>l. startswith (strip l) bullet) lines)) secs)"
  by (induction secs arbitrary: items) (simp_all add: line_loop_eq split: list.splits)

lemma rstrip_last: "rstrip s \<noteq> [] \<Longrightarrow> \<not> is_space (last (rstrip s))"
proof -
  assume ne: "rstrip s \<noteq> []"
  then have "dropWhile is_space (rev s) \<noteq> []" by (simp add: rstrip_def)
  then have "\<not> is_space (hd (dropWhile is_space (rev s)))" by (rule hd_dropWhile)
  moreover have "last (rstrip s) = hd (dropWhile is_space (rev s))"
    using ne by (simp add: rstrip_def last_rev)
  ultimately show ?thesis by simp
qed

lemma bullet_content_nonempty:
  assumes "startswith (strip l) bullet"
  shows "drop 2 (strip l) \<noteq> []"
proof
  assume e: "drop 2 (strip l) = []"
  from assms have t: "take 2 (strip l) = [45, 32]"
    by (simp add: startswith_def bullet_def u_def numeral_2_eq_2)
  have "strip l = take 2 (strip l) @ drop 2 (strip l)" by (simp only: append_take_drop_id)
  with e t have s: "strip l = [45, 32]" by simp
  then have "rstrip (lstrip l) \<noteq> []" by (simp add: strip_def)
  then have "\<not> is_space (last (rstrip (lstrip l)))" by (rule rstrip_last)
  with s show False by (simp add: strip_def is_space_def)
qed

lemma strip_dash_only:
  assumes "list_all is_space ws1" and "list_all is_space ws2"
  shows "strip (ws1 @ 45 # ws2) = [45]"
proof -
  have d: "\<not> is_space 45" by (simp add: is_space_def)
  from assms(1) d have "lstrip (ws1 @ 45 # ws2) = 45 # ws2"
    by (simp add: lstrip_def dropWhile_append3 list_all_iff)
  moreover from assms(2) d have "rstrip (45 # ws2) = [45]"
    by (simp add: rstrip_def dropWhile_append3 list_all_iff)
  ultimately show ?thesis by (simp add: strip_def)
qed

section \<open>The entry loop and the run\<close>

lemma pubdate_of_error: "pubdate_of date = Inl e \<Longrightarrow> e = ValueError"
  by (cases e)
    (auto simp: pubdate_of_def strptime_def
      split: sum.splits list.splits if_splits prod.splits option.splits)

lemma entry_loop_ok:
  "list_all (\<lambda>item. date_ok (fst item)) items \<Longrightarrow>
   entry_loop markdown items fg =
     Inr (fg\<lparr>feed_entries := rev (map (entry_of markdown) items) @ feed_entries fg\<rparr>)"
proof (induction items arbitrary: fg)
  case Nil
  show ?case by simp
next
  case (Cons item items)
  obtain date content where item: "item = (date, content)" by (cases item)
  from Cons.prems item obtain dt where dt: "pubdate_of date = Inr dt"
    by (auto simp: date_ok_def split: sum.splits)
  from Cons.prems have rest: "list_all (\<lambda>item. date_ok (fst item)) items" by simp
  show ?case
    by (simp add: item dt Cons.IH [OF rest] add_entry_def on_new_entry_def FeedEntry_def
        entry_of_def)
qed

lemma entry_loop_error:
  "\<not> list_all (\<lambda>item. date_ok (fst item)) items \<Longrightarrow>
   entry_loop markdown items fg = Inl ValueError"
proof (induction items arbitrary: fg)
  case Nil
  then show ?case by simp
next
  case (Cons item items)
  obtain date content where item: "item = (date, content)" by (cases item)
  show ?case
  proof (cases "pubdate_of date")
    case (Inl e)
    then have "e = ValueError" by (rule pubdate_of_error)
    with Inl show ?thesis by (simp add: item)
  next
    case (Inr dt)
    then have "date_ok date" by (simp add: date_ok_def)
    with Cons.prems item have "\<not> list_all (\<lambda>item. date_ok (fst item)) items" by simp
    then show ?thesis by (simp add: item Inr Cons.IH)
  qed
qed

lemma md2rss_ok:
  assumes "newsfeed_md fs = Some md"
    and "list_all (\<lambda>item. date_ok (fst item)) (extract_items md)"
  shows "md2rss markdown now fs =
     (Exit0, fs\<lparr>newsfeed_xml := Some
        \<lparr>channel_title = u ''SQL Saturday News'',
         channel_link = u ''https://github.com/KennyNeal/SQL-Saturday-2025'',
         channel_description = u ''Latest news and updates for SQL Saturday Baton Rouge 2025'',
         channel_lastBuildDate = now,
         channel_items = rev (map (entry_of markdown) (extract_items md))\<rparr>\<rparr>)"
  using assms
  by (simp add: md2rss_def Let_def entry_loop_ok rss_document_of_def FeedGenerator_def)

lemma md2rss_error:
  assumes "newsfeed_md fs = Some md"
    and "\<not> list_all (\<lambda>item. date_ok (fst item)) (extract_items md)"
  shows "md2rss markdown now fs = (Uncaught ValueError, fs)"
  using assms by (simp add: md2rss_def Let_def entry_loop_error)

lemma md2rss_Exit0:
  assumes "newsfeed_md fs = Some md" and "md2rss markdown now fs = (Exit0, fs')"
  shows "list_all (\<lambda>item. date_ok (fst item)) (extract_items md)"
proof (rule ccontr)
  assume "\<not> ?thesis"
  with assms(1) have "md2rss markdown now fs = (Uncaught ValueError, fs)" by (rule md2rss_error)
  with assms(2) show False by simp
qed

lemma written_items:
  assumes "newsfeed_md fs = Some md" and "md2rss markdown now fs = (Exit0, fs')"
  shows "\<exists>doc. newsfeed_xml fs' = Some doc \<and>
           channel_items doc = rev (map (entry_of markdown) (extract_items md)) \<and>
           list_all (\<lambda>item. date_ok (fst item)) (extract_items md)"
proof -
  from assms have ok: "list_all (\<lambda>item. date_ok (fst item)) (extract_items md)"
    by (rule md2rss_Exit0)
  from md2rss_ok [OF assms(1) ok, of markdown now] assms(2) ok show ?thesis by auto
qed

lemma example_dates_ok: "list_all (\<lambda>item. date_ok (fst item)) (extract_items example_md)"
  by (simp add: example_items date_ok_def pubdate_2025_05_01 pubdate_2025_05_01_0900)

lemma example_long_dates_ok:
  "list_all (\<lambda>item. date_ok (fst item)) (extract_items example_long_md)"
  by (simp add: example_long_items date_ok_def pubdate_2025_06_01)

section \<open>The date parser\<close>

lemma re_match_keys:
  "(found, rest) \<in> set (re_match ps s) \<Longrightarrow> D \<in> fst ` set found \<Longrightarrow> Group D \<in> set ps"
proof (induction ps s arbitrary: found rest rule: re_match.induct)
  case (1 s)
  then show ?case by simp
next
  case (2 a ps s)
  then show ?case by (cases s) (auto split: if_splits)
next
  case (3 ps s)
  then show ?case by auto
next
  case (4 E ps s)
  from "4.prems"(1) obtain alt m r groups
    where alt: "alt \<in> set (alternatives E)" and m: "match_classes alt s = Some (m, r)"
      and g: "(groups, rest) \<in> set (re_match ps r)" and f: "found = (E, m) # groups"
    by (auto split: option.splits) (metis (no_types))
  show ?case
  proof (cases "D = E")
    case True
    then show ?thesis by simp
  next
    case False
    with "4.prems"(2) f have "D \<in> fst ` set groups" by auto
    from "4.IH" [OF alt m refl g this] show ?thesis by simp
  qed
qed

lemma strptime_Ymd_midnight:
  assumes "strptime date fmt_Ymd = Inr dt"
  shows "hour dt = 0 \<and> minute dt = 0 \<and> second dt = 0"
proof -
  from assms obtain found rest ms where rm: "re_match fmt_Ymd date = (found, rest) # ms"
    by (auto simp: strptime_def split: list.splits)
  then have mem: "(found, rest) \<in> set (re_match fmt_Ymd date)" by simp
  have "map_of found PctH = None"
  proof (rule ccontr)
    assume "map_of found PctH \<noteq> None"
    then have "PctH \<in> fst ` set found" by (auto dest: map_of_SomeD intro: rev_image_eqI)
    from re_match_keys [OF mem this] show False by (simp add: fmt_Ymd_def)
  qed
  moreover have "map_of found PctM = None"
  proof (rule ccontr)
    assume "map_of found PctM \<noteq> None"
    then have "PctM \<in> fst ` set found" by (auto dest: map_of_SomeD intro: rev_image_eqI)
    from re_match_keys [OF mem this] show False by (simp add: fmt_Ymd_def)
  qed
  ultimately show ?thesis
    using assms rm
    by (auto simp: strptime_def group_int_def split: if_splits option.splits)
qed

lemma example_bad_items:
  "extract_items example_bad_md =
     [(u ''2025-05-01'', u ''Registration opens''), (u ''not-a-date'', u ''Venue map published'')]"
  by (simp add: example_bad_md_def text_eval)

lemma strptime_naive: "strptime date format = Inr dt \<Longrightarrow> tzinfo dt = None"
  by (auto simp: strptime_def split: list.splits if_splits option.splits prod.splits)

lemma pubdate_of_attaches_zone:
  assumes "pubdate_of date = Inr dt"
  shows "tzinfo dt = Some central \<and>
         (strptime date fmt_Ymd_HM = Inr (dt\<lparr>tzinfo := None\<rparr>) \<or>
          strptime date fmt_Ymd = Inr (dt\<lparr>tzinfo := None\<rparr>))"
proof (cases "strptime date fmt_Ymd_HM")
  case (Inr naive)
  with assms have dt: "dt = naive\<lparr>tzinfo := Some central\<rparr>"
    by (simp add: pubdate_of_def replace_tzinfo_def)
  from Inr have "tzinfo naive = None" by (rule strptime_naive)
  then have "dt\<lparr>tzinfo := None\<rparr> = naive" by (simp add: dt)
  with Inr dt show ?thesis by simp
next
  case (Inl e)
  with assms obtain naive where n: "strptime date fmt_Ymd = Inr naive"
    and dt: "dt = naive\<lparr>tzinfo := Some central\<rparr>"
    by (auto simp: pubdate_of_def replace_tzinfo_def split: if_splits sum.splits)
  from n have "tzinfo naive = None" by (rule strptime_naive)
  then have "dt\<lparr>tzinfo := None\<rparr> = naive" by (simp add: dt)
  with n dt show ?thesis by simp
qed

section \<open>The date parser on zero-padded dates\<close>

text \<open>
  What the matcher does on a field written with two digits (four for the year): of the
  alternatives of a directive, the first that matches is the one that takes the whole
  field, so the first match of either format on a zero-padded date is the intended one.
\<close>

lemma digit_value_ascii: "k < 10 \<Longrightarrow> digit_value (48 + k) = Some k"
  by (simp add: digit_value_def digit_zeros_def)

lemma dig_ascii: "k < 10 \<Longrightarrow> dig (48 + k)"
  by (simp add: dig_def digit_value_ascii)

lemma re_match_Y:
  "re_match (Group PctY # ps) (pad4 y @ s) =
     map (\<lambda>(groups, rest). ((PctY, pad4 y) # groups, rest)) (re_match ps s)"
  by (simp add: pad4_def dig_ascii)

lemma re_match_m_digits:
  assumes "a = 0 \<and> 1 \<le> b \<and> b \<le> 9 \<or> a = 1 \<and> b \<le> 2"
  shows "re_match (Group Pctm # Lit CHR ''-'' # ps) ([48 + a, 48 + b] @ 45 # s) =
       map (\<lambda>(groups, rest). ((Pctm, [48 + a, 48 + b]) # groups, rest)) (re_match ps s)"
  using assms by (elim disjE conjE) (simp_all add: rng_def chr_def)

lemma re_match_d_digits_end:
  assumes "a = 0 \<and> 1 \<le> b \<and> b \<le> 9 \<or> a = 1 \<and> b \<le> 9 \<or> a = 2 \<and> b \<le> 9 \<or> a = 3 \<and> b \<le> 1"
  shows "take 1 (re_match [Group Pctd] [48 + a, 48 + b]) = [([(Pctd, [48 + a, 48 + b])], [])]"
  using assms by (elim disjE conjE) (simp_all add: rng_def chr_def dig_ascii)

lemma re_match_d_digits_fail:
  assumes "a = 0 \<and> 1 \<le> b \<and> b \<le> 9 \<or> a = 1 \<and> b \<le> 9 \<or> a = 2 \<and> b \<le> 9 \<or> a = 3 \<and> b \<le> 1"
  shows "re_match (Group Pctd # Spaces # ps) [48 + a, 48 + b] = []"
  using assms by (elim disjE conjE) (simp_all add: rng_def chr_def dig_ascii is_space_def)

lemma re_match_d_digits_time:
  assumes "a = 0 \<and> 1 \<le> b \<and> b \<le> 9 \<or> a = 1 \<and> b \<le> 9 \<or> a = 2 \<and> b \<le> 9 \<or> a = 3 \<and> b \<le> 1"
    and "\<not> is_space c"
  shows "re_match (Group Pctd # Spaces # ps) ([48 + a, 48 + b] @ 32 # c # s) =
       map (\<lambda>(groups, rest). ((Pctd, [48 + a, 48 + b]) # groups, rest)) (re_match ps (c # s))"
proof -
  have sp: "is_space 32" by (simp add: is_space_def)
  have nb: "\<not> is_space (48 + b)" if "b \<le> 9" using that by (simp add: is_space_def)
  from assms(1) show ?thesis
    by (elim disjE conjE) (simp_all add: rng_def chr_def dig_ascii sp nb assms(2))
qed

lemma re_match_H_digits:
  assumes "a = 0 \<and> b \<le> 9 \<or> a = 1 \<and> b \<le> 9 \<or> a = 2 \<and> b \<le> 3"
  shows "re_match (Group PctH # Lit CHR '':'' # ps) ([48 + a, 48 + b] @ 58 # s) =
       map (\<lambda>(groups, rest). ((PctH, [48 + a, 48 + b]) # groups, rest)) (re_match ps s)"
  using assms by (elim disjE conjE) (simp_all add: rng_def chr_def dig_ascii)

lemma re_match_M_digits_end:
  assumes "a \<le> 5" and "b \<le> 9"
  shows "take 1 (re_match [Group PctM] [48 + a, 48 + b]) = [([(PctM, [48 + a, 48 + b])], [])]"
  using assms by (simp add: rng_def chr_def dig_ascii)

lemma digits_of:
  fixes n :: nat
  assumes "n < 100"
  obtains a b where "a < 10" and "b < 10" and "n = 10 * a + b"
    and "n div 10 mod 10 = a" and "n mod 10 = b"
proof
  from assms show "n div 10 < 10" by (simp add: less_mult_imp_div_less)
  then show "n div 10 mod 10 = n div 10" by simp
  show "n mod 10 < 10" by simp
  show "n = 10 * (n div 10) + n mod 10" by simp
  show "n mod 10 = n mod 10" ..
qed

lemma month_digits:
  fixes m :: nat
  assumes "1 \<le> m" and "m \<le> 12"
  shows "m div 10 mod 10 = 0 \<and> 1 \<le> m mod 10 \<and> m mod 10 \<le> 9 \<or>
         m div 10 mod 10 = 1 \<and> m mod 10 \<le> 2"
proof -
  from assms have "m < 100" by simp
  then obtain a b where "a < 10" "b < 10" "m = 10 * a + b" "m div 10 mod 10 = a" "m mod 10 = b"
    by (rule digits_of)
  with assms show ?thesis by (simp only:) linarith
qed

lemma day_digits:
  fixes d :: nat
  assumes "1 \<le> d" and "d \<le> 31"
  shows "d div 10 mod 10 = 0 \<and> 1 \<le> d mod 10 \<and> d mod 10 \<le> 9 \<or>
         d div 10 mod 10 = 1 \<and> d mod 10 \<le> 9 \<or>
         d div 10 mod 10 = 2 \<and> d mod 10 \<le> 9 \<or>
         d div 10 mod 10 = 3 \<and> d mod 10 \<le> 1"
proof -
  from assms have "d < 100" by simp
  then obtain a b where "a < 10" "b < 10" "d = 10 * a + b" "d div 10 mod 10 = a" "d mod 10 = b"
    by (rule digits_of)
  with assms show ?thesis by (simp only:) linarith
qed

lemma hour_digits:
  fixes h :: nat
  assumes "h < 24"
  shows "h div 10 mod 10 = 0 \<and> h mod 10 \<le> 9 \<or>
         h div 10 mod 10 = 1 \<and> h mod 10 \<le> 9 \<or>
         h div 10 mod 10 = 2 \<and> h mod 10 \<le> 3"
proof -
  from assms have "h < 100" by simp
  then obtain a b where "a < 10" "b < 10" "h = 10 * a + b" "h div 10 mod 10 = a" "h mod 10 = b"
    by (rule digits_of)
  with assms show ?thesis by (simp only:) linarith
qed

lemma minute_digits:
  fixes mi :: nat
  assumes "mi < 60"
  shows "mi div 10 mod 10 \<le> 5 \<and> mi mod 10 \<le> 9"
proof -
  from assms have "mi < 100" by simp
  then obtain a b where "a < 10" "b < 10" "mi = 10 * a + b" "mi div 10 mod 10 = a" "mi mod 10 = b"
    by (rule digits_of)
  with assms show ?thesis by (simp only:) linarith
qed

lemma py_int_digits2:
  assumes "a < 10" and "b < 10"
  shows "py_int [48 + a, 48 + b] = Some (10 * a + b)"
proof -
  have na: "\<not> is_space (48 + a)" and nb: "\<not> is_space (48 + b)"
    using assms by (simp_all add: is_space_def)
  have "strip [48 + a, 48 + b] = [48 + a, 48 + b]"
    by (simp add: strip_def lstrip_def rstrip_def na nb)
  then show ?thesis using assms by (simp add: py_int_def digit_value_ascii)
qed

lemma py_int_pad2:
  assumes "n < 100"
  shows "py_int (pad2 n) = Some n"
proof -
  from assms obtain a b where "a < 10" "b < 10" "n = 10 * a + b" "n div 10 mod 10 = a"
    "n mod 10 = b"
    by (rule digits_of)
  then show ?thesis by (simp only: pad2_def py_int_digits2)
qed

lemma digits_of4:
  fixes n :: nat
  assumes "n < 10000"
  obtains a b c e where "a < 10" and "b < 10" and "c < 10" and "e < 10"
    and "n = 1000 * a + 100 * b + 10 * c + e"
    and "n div 1000 mod 10 = a" and "n div 100 mod 10 = b" and "n div 10 mod 10 = c"
    and "n mod 10 = e"
proof
  from assms show a: "n div 1000 < 10" by (simp add: less_mult_imp_div_less)
  then show "n div 1000 mod 10 = n div 1000" by simp
  show "n div 100 mod 10 < 10" "n div 10 mod 10 < 10" "n mod 10 < 10" by simp_all
  show "n div 100 mod 10 = n div 100 mod 10" "n div 10 mod 10 = n div 10 mod 10"
    "n mod 10 = n mod 10" by (rule refl)+
  have h1: "n div 100 = n div 10 div 10" by (simp add: div_mult2_eq)
  have h2: "n div 1000 = n div 10 div 10 div 10" by (simp add: div_mult2_eq)
  have s1: "n = 10 * (n div 10) + n mod 10" by simp
  have s2: "n div 10 = 10 * (n div 10 div 10) + n div 10 mod 10" by simp
  have s3: "n div 10 div 10 = 10 * (n div 10 div 10 div 10) + n div 10 div 10 mod 10" by simp
  from s1 s2 s3 show "n = 1000 * (n div 1000) + 100 * (n div 100 mod 10) + 10 * (n div 10 mod 10)
      + n mod 10"
    unfolding h1 h2 by linarith
qed

lemma py_int_digits4:
  assumes "a < 10" and "b < 10" and "c < 10" and "e < 10"
  shows "py_int [48 + a, 48 + b, 48 + c, 48 + e] = Some (1000 * a + 100 * b + 10 * c + e)"
proof -
  have na: "\<not> is_space (48 + a)" and ne: "\<not> is_space (48 + e)"
    using assms by (simp_all add: is_space_def)
  have "strip [48 + a, 48 + b, 48 + c, 48 + e] = [48 + a, 48 + b, 48 + c, 48 + e]"
    by (simp add: strip_def lstrip_def rstrip_def na ne)
  then show ?thesis using assms by (simp add: py_int_def digit_value_ascii)
qed

lemma py_int_pad4:
  assumes "n < 10000"
  shows "py_int (pad4 n) = Some n"
proof -
  from assms obtain a b c e where "a < 10" "b < 10" "c < 10" "e < 10"
    "n = 1000 * a + 100 * b + 10 * c + e"
    "n div 1000 mod 10 = a" "n div 100 mod 10 = b" "n div 10 mod 10 = c" "n mod 10 = e"
    by (rule digits_of4)
  then show ?thesis by (simp only: pad4_def py_int_digits4)
qed

lemma not_space_digit: "k < 10 \<Longrightarrow> \<not> is_space (48 + k)"
  by (simp add: is_space_def)

lemma days_in_month_le_31: "days_in_month y m \<le> 31"
  by (simp add: days_in_month_def)

lemma re_match_m:
  assumes "1 \<le> m" and "m \<le> 12"
  shows "re_match (Group Pctm # Lit CHR ''-'' # ps) (pad2 m @ 45 # s) =
       map (\<lambda>(groups, rest). ((Pctm, pad2 m) # groups, rest)) (re_match ps s)"
  unfolding pad2_def by (rule re_match_m_digits) (rule month_digits [OF assms])

lemma re_match_d_end:
  assumes "1 \<le> d" and "d \<le> 31"
  shows "take 1 (re_match [Group Pctd] (pad2 d)) = [([(Pctd, pad2 d)], [])]"
  unfolding pad2_def by (rule re_match_d_digits_end) (rule day_digits [OF assms])

lemma re_match_d_fail:
  assumes "1 \<le> d" and "d \<le> 31"
  shows "re_match (Group Pctd # Spaces # ps) (pad2 d) = []"
  unfolding pad2_def by (rule re_match_d_digits_fail) (rule day_digits [OF assms])

lemma re_match_d_time:
  assumes "1 \<le> d" and "d \<le> 31" and "\<not> is_space c"
  shows "re_match (Group Pctd # Spaces # ps) (pad2 d @ 32 # c # s) =
       map (\<lambda>(groups, rest). ((Pctd, pad2 d) # groups, rest)) (re_match ps (c # s))"
  unfolding pad2_def by (rule re_match_d_digits_time) (rule day_digits [OF assms(1,2)], rule assms(3))

lemma re_match_d_time_pad2:
  assumes "1 \<le> d" and "d \<le> 31"
  shows "re_match (Group Pctd # Spaces # ps) (pad2 d @ 32 # pad2 h @ s) =
       map (\<lambda>(groups, rest). ((Pctd, pad2 d) # groups, rest)) (re_match ps (pad2 h @ s))"
proof -
  have ns: "\<not> is_space (48 + h div 10 mod 10)" by (rule not_space_digit) simp
  have hh: "pad2 h @ s = (48 + h div 10 mod 10) # (48 + h mod 10) # s"
    by (simp add: pad2_def)
  show ?thesis unfolding hh by (rule re_match_d_time [OF assms ns])
qed

lemma re_match_H:
  assumes "h < 24"
  shows "re_match (Group PctH # Lit CHR '':'' # ps) (pad2 h @ 58 # s) =
       map (\<lambda>(groups, rest). ((PctH, pad2 h) # groups, rest)) (re_match ps s)"
  unfolding pad2_def by (rule re_match_H_digits) (rule hour_digits [OF assms])

lemma re_match_M_end:
  assumes "mi < 60"
  shows "take 1 (re_match [Group PctM] (pad2 mi)) = [([(PctM, pad2 mi)], [])]"
  unfolding pad2_def
  using minute_digits [OF assms] by (intro re_match_M_digits_end) simp_all

lemma take_1_eq: "take 1 xs = [x] \<Longrightarrow> \<exists>ms. xs = x # ms"
  by (cases xs) simp_all

lemma re_match_dash: "re_match (Lit CHR ''-'' # ps) (45 # s) = re_match ps s"
  by simp

lemma re_match_colon: "re_match (Lit CHR '':'' # ps) (58 # s) = re_match ps s"
  by simp

lemma re_match_iso_date:
  assumes "valid_date y m d"
  shows "\<exists>ms. re_match fmt_Ymd (iso_date y m d) =
           ([(PctY, pad4 y), (Pctm, pad2 m), (Pctd, pad2 d)], []) # ms"
    and "re_match fmt_Ymd_HM (iso_date y m d) = []"
proof -
  from assms have m: "1 \<le> m" "m \<le> 12" and d: "1 \<le> d" "d \<le> 31"
    using days_in_month_le_31 [of y m] by (simp_all add: valid_date_def)
  have iso: "iso_date y m d = pad4 y @ 45 # pad2 m @ 45 # pad2 d"
    by (simp add: iso_date_def u_def)
  from re_match_d_end [OF d] obtain ms
    where ms: "re_match [Group Pctd] (pad2 d) = ([(Pctd, pad2 d)], []) # ms"
    by (blast dest: take_1_eq)
  have "re_match fmt_Ymd (iso_date y m d) =
      map (\<lambda>(groups, rest). ((PctY, pad4 y) # groups, rest))
        (map (\<lambda>(groups, rest). ((Pctm, pad2 m) # groups, rest))
           (re_match [Group Pctd] (pad2 d)))"
    unfolding iso fmt_Ymd_def by (simp only: re_match_Y re_match_dash re_match_m [OF m])
  then show "\<exists>ms. re_match fmt_Ymd (iso_date y m d) =
           ([(PctY, pad4 y), (Pctm, pad2 m), (Pctd, pad2 d)], []) # ms"
    by (simp only: ms list.map prod.case) blast
  have "re_match fmt_Ymd_HM (iso_date y m d) =
      map (\<lambda>(groups, rest). ((PctY, pad4 y) # groups, rest))
        (map (\<lambda>(groups, rest). ((Pctm, pad2 m) # groups, rest))
           (re_match [Group Pctd, Spaces, Group PctH, Lit CHR '':'', Group PctM] (pad2 d)))"
    unfolding iso fmt_Ymd_HM_def by (simp only: re_match_Y re_match_dash re_match_m [OF m])
  then show "re_match fmt_Ymd_HM (iso_date y m d) = []"
    by (simp only: re_match_d_fail [OF d] list.map)
qed

lemma re_match_iso_date_time:
  assumes "valid_date y m d" and "h < 24" and "mi < 60"
  shows "\<exists>ms. re_match fmt_Ymd_HM (iso_date_time y m d h mi) =
           ([(PctY, pad4 y), (Pctm, pad2 m), (Pctd, pad2 d), (PctH, pad2 h), (PctM, pad2 mi)], [])
           # ms"
proof -
  from assms have m: "1 \<le> m" "m \<le> 12" and d: "1 \<le> d" "d \<le> 31"
    using days_in_month_le_31 [of y m] by (simp_all add: valid_date_def)
  have iso: "iso_date_time y m d h mi =
      pad4 y @ 45 # pad2 m @ 45 # pad2 d @ 32 # pad2 h @ 58 # pad2 mi"
    by (simp add: iso_date_time_def iso_date_def u_def)
  from re_match_M_end [OF assms(3)] obtain ms
    where ms: "re_match [Group PctM] (pad2 mi) = ([(PctM, pad2 mi)], []) # ms"
    by (blast dest: take_1_eq)
  have "re_match fmt_Ymd_HM (iso_date_time y m d h mi) =
      map (\<lambda>(groups, rest). ((PctY, pad4 y) # groups, rest))
        (map (\<lambda>(groups, rest). ((Pctm, pad2 m) # groups, rest))
           (map (\<lambda>(groups, rest). ((Pctd, pad2 d) # groups, rest))
              (map (\<lambda>(groups, rest). ((PctH, pad2 h) # groups, rest))
                 (re_match [Group PctM] (pad2 mi)))))"
    unfolding iso fmt_Ymd_HM_def
    by (simp only: re_match_Y re_match_dash re_match_m [OF m] re_match_d_time_pad2 [OF d]
        re_match_H [OF assms(2)])
  then show ?thesis by (simp only: ms list.map prod.case) blast
qed

lemma strptime_iso_date:
  assumes "valid_date y m d"
  shows "strptime (iso_date y m d) fmt_Ymd =
           Inr \<lparr>year = y, month = m, day = d, hour = 0, minute = 0, second = 0, tzinfo = None\<rparr>"
    and "strptime (iso_date y m d) fmt_Ymd_HM = Inl ValueError"
proof -
  from assms have y: "y < 10000" and m: "m < 100" and d: "d < 100"
    using days_in_month_le_31 [of y m] by (simp_all add: valid_date_def)
  from re_match_iso_date(1) [OF assms] obtain ms
    where "re_match fmt_Ymd (iso_date y m d) =
             ([(PctY, pad4 y), (Pctm, pad2 m), (Pctd, pad2 d)], []) # ms" ..
  then show "strptime (iso_date y m d) fmt_Ymd =
           Inr \<lparr>year = y, month = m, day = d, hour = 0, minute = 0, second = 0, tzinfo = None\<rparr>"
    by (simp add: strptime_def group_int_def py_int_pad4 [OF y] py_int_pad2 [OF m]
        py_int_pad2 [OF d] assms)
  show "strptime (iso_date y m d) fmt_Ymd_HM = Inl ValueError"
    by (simp add: strptime_def re_match_iso_date(2) [OF assms])
qed

lemma strptime_iso_date_time:
  assumes "valid_date y m d" and "h < 24" and "mi < 60"
  shows "strptime (iso_date_time y m d h mi) fmt_Ymd_HM =
           Inr \<lparr>year = y, month = m, day = d, hour = h, minute = mi, second = 0, tzinfo = None\<rparr>"
proof -
  from assms have y: "y < 10000" and m: "m < 100" and d: "d < 100" and h: "h < 100"
    and mi: "mi < 100"
    using days_in_month_le_31 [of y m] by (simp_all add: valid_date_def)
  from re_match_iso_date_time [OF assms] obtain ms
    where "re_match fmt_Ymd_HM (iso_date_time y m d h mi) =
           ([(PctY, pad4 y), (Pctm, pad2 m), (Pctd, pad2 d), (PctH, pad2 h), (PctM, pad2 mi)], [])
           # ms" ..
  then show ?thesis
    by (simp add: strptime_def group_int_def py_int_pad4 [OF y] py_int_pad2 [OF m]
        py_int_pad2 [OF d] py_int_pad2 [OF h] py_int_pad2 [OF mi] assms)
qed

lemma ascii_digit_mod: "ascii_digit (48 + k mod 10)"
  by (simp add: ascii_digit_def)

lemma documented_iso:
  "documented_format (iso_date y m d)" "documented_format (iso_date_time y m d h mi)"
  by (simp_all add: documented_format_def iso_date_def iso_date_time_def pad2_def pad4_def
      u_def ascii_digit_mod)

section \<open>Lines of a section before and after trimming\<close>

text \<open>
  The outer loop trims a section before it splits it into lines. Every line boundary is
  whitespace, so trimming removes whole blank lines at both ends and whitespace that
  the trimming of the single lines removes anyway: the trimmed lines of the section are
  those of the trimmed section, with empty lines before and after.
\<close>

lemma linebreak_is_space: "is_linebreak c \<Longrightarrow> is_space c"
  by (auto simp: is_linebreak_def is_space_def)




















section \<open>Claims about the extractor\<close>



text \<open>
  C8. Every item that the extractor produces has non-empty content, and a line that
  holds nothing but a dash and whitespace yields no item: trimmed, it is the dash alone,
  which does not start with \<open>- \<close>.
\<close>

theorem item_content_nonempty:
  "(\<forall>(date, content) \<in> set (extract_items md). content \<noteq> []) \<and>
   (list_all is_space ws1 \<and> list_all is_space ws2 \<longrightarrow>
      line_loop date [ws1 @ u ''-'' @ ws2] items = items)"
proof
  have "content \<noteq> []" if "(date, content) \<in> set (extract_items md)" for date content
  proof -
    from that obtain line where b: "startswith (strip line) bullet"
      and c: "content = drop 2 (strip line)"
      by (auto simp: extract_items_def section_loop_eq split: list.splits)
    show ?thesis unfolding c by (rule bullet_content_nonempty [OF b])
  qed
  then show "\<forall>(date, content) \<in> set (extract_items md). content \<noteq> []" by blast
next
  show "list_all is_space ws1 \<and> list_all is_space ws2 \<longrightarrow>
      line_loop date [ws1 @ u ''-'' @ ws2] items = items"
  proof
    assume "list_all is_space ws1 \<and> list_all is_space ws2"
    then have "strip (ws1 @ 45 # ws2) = [45]" by (simp add: strip_dash_only)
    then show "line_loop date [ws1 @ u ''-'' @ ws2] items = items"
      by (simp add: u_def startswith_def bullet_def)
  qed
qed

theorem item_content_nonempty_witness:
  "(u ''2025-05-01'', u ''Registration opens'') \<in> set (extract_items example_md) \<and>
   u ''Registration opens'' \<noteq> [] \<and>
   list_all is_space (u '' '') \<and> list_all is_space (u ''  '') \<and>
   line_loop (u ''2025-05-01'') [u '' '' @ u ''-'' @ u ''  ''] [] = []"
proof -
  have m: "(u ''2025-05-01'', u ''Registration opens'') \<in> set (extract_items example_md)"
    by (simp add: example_items)
  have w: "list_all is_space (u '' '') \<and> list_all is_space (u ''  '')"
    by (simp add: u_def is_space_def)
  from item_content_nonempty [of example_md "u '' ''" "u ''  ''" "u ''2025-05-01''" "[]"] m w
  show ?thesis by auto
qed


section \<open>Claims about the feed\<close>

text \<open>
  C6. In a run that writes the feed, the title of every item is the content of its
  bullet line when that has at most 60 characters, and exactly its first 60 characters
  otherwise: a cut by count, with nothing added.
\<close>

theorem title_is_first_60_characters:
  assumes "newsfeed_md fs = Some md" and "md2rss markdown now fs = (Exit0, fs')"
  shows "\<exists>doc. newsfeed_xml fs' = Some doc \<and>
           list_all2 (\<lambda>fe (date, content).
                        title fe = (if length content \<le> 60 then content else take 60 content) \<and>
                        length (title fe) = min 60 (length content))
             (channel_items doc) (rev (extract_items md))"
proof -
  from written_items [OF assms] obtain doc where doc: "newsfeed_xml fs' = Some doc"
    and items: "channel_items doc = rev (map (entry_of markdown) (extract_items md))"
    by blast
  have "list_all2 (\<lambda>fe (date, content).
                        title fe = (if length content \<le> 60 then content else take 60 content) \<and>
                        length (title fe) = min 60 (length content))
          (map (entry_of markdown) xs) xs" for xs
    by (induction xs) (auto simp: entry_of_def)
  from this [of "rev (extract_items md)"] doc items show ?thesis
    by (simp add: rev_map)
qed

theorem title_is_first_60_characters_witness:
  "\<exists>doc. newsfeed_xml
            (snd (md2rss id example_now \<lparr>newsfeed_md = Some example_long_md, newsfeed_xml = None\<rparr>))
          = Some doc \<and>
         list_all2 (\<lambda>fe (date, content).
                      title fe = (if length content \<le> 60 then content else take 60 content) \<and>
                      length (title fe) = min 60 (length content))
           (channel_items doc) (rev (extract_items example_long_md)) \<and>
         map title (channel_items doc) =
           [u ''Call for speakers is open: send your abstract before the end'']"
proof -
  let ?fs = "\<lparr>newsfeed_md = Some example_long_md, newsfeed_xml = None\<rparr>"
  have md: "newsfeed_md ?fs = Some example_long_md" by simp
  have run: "md2rss id example_now ?fs = (Exit0, snd (md2rss id example_now ?fs))"
    by (simp add: md2rss_ok [OF md example_long_dates_ok])
  from title_is_first_60_characters [OF md run] obtain doc
    where doc: "newsfeed_xml (snd (md2rss id example_now ?fs)) = Some doc"
      and rel: "list_all2 (\<lambda>fe (date, content).
                      title fe = (if length content \<le> 60 then content else take 60 content) \<and>
                      length (title fe) = min 60 (length content))
           (channel_items doc) (rev (extract_items example_long_md))"
    by blast
  from rel have t: "map title (channel_items doc) =
      [u ''Call for speakers is open: send your abstract before the end'']"
    by (auto simp: example_long_items list_all2_Cons2 u_def)
  show ?thesis by (rule exI [of _ doc]) (intro conjI doc rel t)
qed

text \<open>
  C1, as the code has it. In a run that writes the feed, the items of the written
  document are the extracted items in reverse: every entry is added at the front of the
  generator's list, so the item of the last bullet line comes first and that of the
  first bullet line last. Each item carries the title, description and date of its own
  bullet line, and no sorting takes place.
\<close>

theorem items_in_reverse_parse_order:
  assumes "newsfeed_md fs = Some md" and "md2rss markdown now fs = (Exit0, fs')"
  shows "\<exists>doc. newsfeed_xml fs' = Some doc \<and>
           list_all2 (\<lambda>fe (date, content).
                        title fe = take 60 content \<and> description fe = markdown content \<and>
                        map_option Inr (pubDate fe) = Some (pubdate_of date))
             (channel_items doc) (rev (extract_items md))"
proof -
  from written_items [OF assms] obtain doc where doc: "newsfeed_xml fs' = Some doc"
    and items: "channel_items doc = rev (map (entry_of markdown) (extract_items md))"
    and ok: "list_all (\<lambda>item. date_ok (fst item)) (extract_items md)"
    by blast
  have rel: "list_all2 (\<lambda>fe (date, content).
                        title fe = take 60 content \<and> description fe = markdown content \<and>
                        map_option Inr (pubDate fe) = Some (pubdate_of date))
             (map (entry_of markdown) xs) xs"
    if "list_all (\<lambda>item. date_ok (fst item)) xs" for xs
    using that
    by (induction xs) (auto simp: entry_of_def date_ok_def split: sum.splits)
  from ok have "list_all (\<lambda>item. date_ok (fst item)) (rev (extract_items md))"
    by (simp add: list_all_iff)
  from rel [OF this] doc items show ?thesis by (simp add: rev_map)
qed

theorem items_in_reverse_parse_order_witness:
  "\<exists>doc. newsfeed_xml (snd (md2rss id example_now example_files)) = Some doc \<and>
         list_all2 (\<lambda>fe (date, content).
                      title fe = take 60 content \<and> description fe = id content \<and>
                      map_option Inr (pubDate fe) = Some (pubdate_of date))
           (channel_items doc)
           [(u ''2025-05-01 09:00'', u ''Venue map published''),
            (u ''2025-05-01 09:00'', u ''Keynote speaker announced''),
            (u ''2025-05-01'', u ''Registration opens'')]"
proof -
  have md: "newsfeed_md example_files = Some example_md" by (simp add: example_files_def)
  have run: "md2rss id example_now example_files =
      (Exit0, snd (md2rss id example_now example_files))"
    by (simp add: md2rss_ok [OF md example_dates_ok])
  from items_in_reverse_parse_order [OF md run] show ?thesis
    by (simp add: example_items)
qed

text \<open>
  C1 as stated fails on the specification's own scenario: the bullet lines are
  Registration, Keynote, Venue, and the written items are Venue, Keynote, Registration.
\<close>

theorem items_in_parse_order_counterexample:
  "map snd (extract_items example_md) =
     [u ''Registration opens'', u ''Keynote speaker announced'', u ''Venue map published''] \<and>
   fst (md2rss id example_now example_files) = Exit0 \<and>
   map_option (map title \<circ> channel_items)
     (newsfeed_xml (snd (md2rss id example_now example_files))) =
     Some [u ''Venue map published'', u ''Keynote speaker announced'', u ''Registration opens'']"
proof -
  have md: "newsfeed_md example_files = Some example_md" by (simp add: example_files_def)
  show ?thesis
    by (simp add: md2rss_ok [OF md example_dates_ok] example_items entry_of_def u_def)
qed




section \<open>Claims about dates\<close>

text \<open>
  C4. The parser tries \<open>%Y-%m-%d %H:%M\<close> first: when that succeeds its value is the
  result, and when it fails with \<open>ValueError\<close> the result is that of \<open>%Y-%m-%d\<close>,
  which always gives midnight. Either way the zone America/Chicago is attached. So
  \<open>2025-05-03\<close> is read as 2025-05-03 00:00 and \<open>2025-05-03 14:30\<close> as 2025-05-03 14:30,
  both in that zone.
\<close>

theorem date_parser_two_formats:
  "pubdate_of (u ''2025-05-03'') =
     Inr \<lparr>year = 2025, month = 5, day = 3, hour = 0, minute = 0, second = 0,
          tzinfo = Some (ZoneInfo ''America/Chicago'')\<rparr> \<and>
   pubdate_of (u ''2025-05-03 14:30'') =
     Inr \<lparr>year = 2025, month = 5, day = 3, hour = 14, minute = 30, second = 0,
          tzinfo = Some (ZoneInfo ''America/Chicago'')\<rparr> \<and>
   (strptime date fmt_Ymd_HM = Inr dt \<longrightarrow> pubdate_of date = Inr (replace_tzinfo dt central)) \<and>
   (strptime date fmt_Ymd_HM = Inl ValueError \<longrightarrow>
      pubdate_of date = map_sum id (\<lambda>dt. replace_tzinfo dt central) (strptime date fmt_Ymd)) \<and>
   (strptime date fmt_Ymd = Inr dt' \<longrightarrow> hour dt' = 0 \<and> minute dt' = 0 \<and> second dt' = 0)"
proof (intro conjI impI)
  show "pubdate_of (u ''2025-05-03'') =
     Inr \<lparr>year = 2025, month = 5, day = 3, hour = 0, minute = 0, second = 0,
          tzinfo = Some (ZoneInfo ''America/Chicago'')\<rparr>"
    by (simp add: date_eval central_def)
  show "pubdate_of (u ''2025-05-03 14:30'') =
     Inr \<lparr>year = 2025, month = 5, day = 3, hour = 14, minute = 30, second = 0,
          tzinfo = Some (ZoneInfo ''America/Chicago'')\<rparr>"
    by (simp add: date_eval central_def)
  show "pubdate_of date = Inr (replace_tzinfo dt central)"
    if "strptime date fmt_Ymd_HM = Inr dt"
    using that by (simp add: pubdate_of_def)
  show "pubdate_of date = map_sum id (\<lambda>dt. replace_tzinfo dt central) (strptime date fmt_Ymd)"
    if "strptime date fmt_Ymd_HM = Inl ValueError"
    using that by (simp add: pubdate_of_def split: sum.splits)
  show "hour dt' = 0" "minute dt' = 0" "second dt' = 0" if "strptime date fmt_Ymd = Inr dt'"
    using strptime_Ymd_midnight [OF that] by simp_all
qed

theorem date_parser_two_formats_witness:
  "strptime (u ''2025-05-03 14:30'') fmt_Ymd_HM =
     Inr \<lparr>year = 2025, month = 5, day = 3, hour = 14, minute = 30, second = 0, tzinfo = None\<rparr> \<and>
   pubdate_of (u ''2025-05-03 14:30'') =
     Inr (replace_tzinfo
            \<lparr>year = 2025, month = 5, day = 3, hour = 14, minute = 30, second = 0, tzinfo = None\<rparr>
            central)"
proof -
  have s: "strptime (u ''2025-05-03 14:30'') fmt_Ymd_HM =
     Inr \<lparr>year = 2025, month = 5, day = 3, hour = 14, minute = 30, second = 0, tzinfo = None\<rparr>"
    by (simp add: date_eval)
  from date_parser_two_formats [of "u ''2025-05-03 14:30''"
      "\<lparr>year = 2025, month = 5, day = 3, hour = 14, minute = 30, second = 0, tzinfo = None\<rparr>"] s
  show ?thesis by blast
qed

section \<open>Claims about errors\<close>

text \<open>
  C5, as the code has it. A date string is parsed only when an item of its section is
  turned into an entry. If the date of some extracted item is accepted by neither
  format, the run ends with an uncaught \<open>ValueError\<close> at the first such item, whatever
  comes after it, and leaves both files as they were: nothing is written.
\<close>

theorem unparsable_item_date_aborts_run:
  assumes "newsfeed_md fs = Some md" and "(date, content) \<in> set (extract_items md)"
    and "\<not> date_ok date"
  shows "md2rss markdown now fs = (Uncaught ValueError, fs) \<and>
         (list_all (\<lambda>item. date_ok (fst item)) before \<longrightarrow>
            entry_loop markdown (before @ (date, content) # after) fg = Inl ValueError)"
proof
  from assms(2,3) have "\<not> list_all (\<lambda>item. date_ok (fst item)) (extract_items md)"
    by (force simp: list_all_iff)
  with assms(1) show "md2rss markdown now fs = (Uncaught ValueError, fs)"
    by (rule md2rss_error)
next
  from assms(3) have "\<not> list_all (\<lambda>item. date_ok (fst item)) (before @ (date, content) # after)"
    by simp
  then show "list_all (\<lambda>item. date_ok (fst item)) before \<longrightarrow>
            entry_loop markdown (before @ (date, content) # after) fg = Inl ValueError"
    by (simp add: entry_loop_error)
qed

theorem unparsable_item_date_aborts_run_witness:
  "(u ''not-a-date'', u ''Venue map published'') \<in> set (extract_items example_bad_md) \<and>
   \<not> date_ok (u ''not-a-date'') \<and>
   md2rss id example_now \<lparr>newsfeed_md = Some example_bad_md, newsfeed_xml = None\<rparr> =
     (Uncaught ValueError, \<lparr>newsfeed_md = Some example_bad_md, newsfeed_xml = None\<rparr>)"
proof -
  let ?fs = "\<lparr>newsfeed_md = Some example_bad_md, newsfeed_xml = None\<rparr>"
  have md: "newsfeed_md ?fs = Some example_bad_md" by simp
  have m: "(u ''not-a-date'', u ''Venue map published'') \<in> set (extract_items example_bad_md)"
    by (simp add: example_bad_items)
  have b: "\<not> date_ok (u ''not-a-date'')" by (simp add: date_ok_def pubdate_not_a_date)
  from unparsable_item_date_aborts_run [OF md m b, of id example_now "[]"] m b
  show ?thesis by simp
qed

text \<open>
  C5 as stated fails for a section without bullet lines: its date string is never
  parsed, so the run exits with status 0 and writes a feed without items.
\<close>

theorem unparsable_section_date_counterexample:
  "map section_date (sections example_undated_md) = [Some (u ''not-a-date'')] \<and>
   pubdate_of (u ''not-a-date'') = Inl ValueError \<and>
   md2rss id example_now \<lparr>newsfeed_md = Some example_undated_md, newsfeed_xml = None\<rparr> =
     (Exit0,
      \<lparr>newsfeed_md = Some example_undated_md,
       newsfeed_xml = Some
         \<lparr>channel_title = u ''SQL Saturday News'',
          channel_link = u ''https://github.com/KennyNeal/SQL-Saturday-2025'',
          channel_description = u ''Latest news and updates for SQL Saturday Baton Rouge 2025'',
          channel_lastBuildDate = example_now,
          channel_items = []\<rparr>\<rparr>)"
proof -
  let ?fs = "\<lparr>newsfeed_md = Some example_undated_md, newsfeed_xml = None\<rparr>"
  have md: "newsfeed_md ?fs = Some example_undated_md" by simp
  have ok: "list_all (\<lambda>item. date_ok (fst item)) (extract_items example_undated_md)"
    by (simp add: example_undated_items)
  have "map section_date (sections example_undated_md) = [Some (u ''not-a-date'')]"
    by (simp add: example_undated_md_def section_date_def text_eval)
  with pubdate_not_a_date show ?thesis
    by (simp add: md2rss_ok [OF md ok] example_undated_items)
qed


section \<open>Claims about the zone\<close>

text \<open>
  C10. The parsed wall time is kept as it is and the zone America/Chicago is attached to
  it: the fields of the publication date are those that \<open>strptime\<close> returned. The UTC
  offset that goes with a publication date follows from its own date under the zone's
  daylight-saving rule: -05:00 for 3 May 2025 and -06:00 for 15 January 2025. The zone
  is one, the numeric offset is not.
\<close>

theorem zone_attached_offset_varies:
  "(pubdate_of date = Inr dt \<longrightarrow>
      tzinfo dt = Some (ZoneInfo ''America/Chicago'') \<and>
      (strptime date fmt_Ymd_HM = Inr (dt\<lparr>tzinfo := None\<rparr>) \<or>
       strptime date fmt_Ymd = Inr (dt\<lparr>tzinfo := None\<rparr>))) \<and>
   map_sum id utcoffset (pubdate_of (u ''2025-05-03'')) = Inr (Some (- 300)) \<and>
   map_sum id utcoffset (pubdate_of (u ''2025-01-15'')) = Inr (Some (- 360)) \<and>
   map_sum id utcoffset (pubdate_of (u ''2025-05-03'')) \<noteq>
     map_sum id utcoffset (pubdate_of (u ''2025-01-15''))"
proof (intro conjI impI)
  assume "pubdate_of date = Inr dt"
  from pubdate_of_attaches_zone [OF this]
  show "tzinfo dt = Some (ZoneInfo ''America/Chicago'')"
    and "strptime date fmt_Ymd_HM = Inr (dt\<lparr>tzinfo := None\<rparr>) \<or>
         strptime date fmt_Ymd = Inr (dt\<lparr>tzinfo := None\<rparr>)"
    by (simp_all add: central_def)
next
  have may: "pubdate_of (u ''2025-05-03'') =
     Inr \<lparr>year = 2025, month = 5, day = 3, hour = 0, minute = 0, second = 0,
          tzinfo = Some central\<rparr>"
    by (simp add: date_eval)
  have jan: "pubdate_of (u ''2025-01-15'') =
     Inr \<lparr>year = 2025, month = 1, day = 15, hour = 0, minute = 0, second = 0,
          tzinfo = Some central\<rparr>"
    by (simp add: date_eval)
  show m: "map_sum id utcoffset (pubdate_of (u ''2025-05-03'')) = Inr (Some (- 300))"
    by (simp add: may utcoffset_def central_dst_def)
  show j: "map_sum id utcoffset (pubdate_of (u ''2025-01-15'')) = Inr (Some (- 360))"
    by (simp add: jan utcoffset_def central_dst_def)
  show "map_sum id utcoffset (pubdate_of (u ''2025-05-03'')) \<noteq>
     map_sum id utcoffset (pubdate_of (u ''2025-01-15''))"
    by (simp add: m j)
qed

theorem zone_attached_offset_varies_witness:
  "pubdate_of (u ''2025-05-01 09:00'') =
     Inr \<lparr>year = 2025, month = 5, day = 1, hour = 9, minute = 0, second = 0,
          tzinfo = Some central\<rparr> \<and>
   strptime (u ''2025-05-01 09:00'') fmt_Ymd_HM =
     Inr \<lparr>year = 2025, month = 5, day = 1, hour = 9, minute = 0, second = 0, tzinfo = None\<rparr>"
proof -
  have s: "strptime (u ''2025-05-01 09:00'') fmt_Ymd =  Inl ValueError"
    by (simp add: date_eval)
  from zone_attached_offset_varies [of "u ''2025-05-01 09:00''"
      "\<lparr>year = 2025, month = 5, day = 1, hour = 9, minute = 0, second = 0,
        tzinfo = Some central\<rparr>"] pubdate_2025_05_01_0900 s
  show ?thesis by simp
qed


section \<open>Claims about the accepted date strings\<close>

text \<open>
  C9. The parser accepts strings that are in neither documented format: \<open>2025-5-3\<close> and
  \<open>2025-05-03 9:05\<close>, with unpadded fields, are read as 3 May 2025, 00:00 and 09:05,
  and neither has the shape \<open>YYYY-MM-DD\<close> or \<open>YYYY-MM-DD HH:MM\<close>. In the other
  direction, every valid date, and every valid date with a time of day, written
  zero-padded in the documented format is accepted and read as itself. So the accepted
  strings strictly include the documented ones.
\<close>

theorem date_parser_accepts_unpadded_fields:
  "pubdate_of (u ''2025-5-3'') =
     Inr \<lparr>year = 2025, month = 5, day = 3, hour = 0, minute = 0, second = 0,
          tzinfo = Some central\<rparr> \<and>
   \<not> documented_format (u ''2025-5-3'') \<and>
   pubdate_of (u ''2025-05-03 9:05'') =
     Inr \<lparr>year = 2025, month = 5, day = 3, hour = 9, minute = 5, second = 0,
          tzinfo = Some central\<rparr> \<and>
   \<not> documented_format (u ''2025-05-03 9:05'') \<and>
   (valid_date y m d \<longrightarrow>
      documented_format (iso_date y m d) \<and>
      pubdate_of (iso_date y m d) =
        Inr \<lparr>year = y, month = m, day = d, hour = 0, minute = 0, second = 0,
             tzinfo = Some central\<rparr>) \<and>
   (valid_date y m d \<and> h < 24 \<and> mi < 60 \<longrightarrow>
      documented_format (iso_date_time y m d h mi) \<and>
      pubdate_of (iso_date_time y m d h mi) =
        Inr \<lparr>year = y, month = m, day = d, hour = h, minute = mi, second = 0,
             tzinfo = Some central\<rparr>)"
proof (intro conjI impI)
  show "pubdate_of (u ''2025-5-3'') =
     Inr \<lparr>year = 2025, month = 5, day = 3, hour = 0, minute = 0, second = 0,
          tzinfo = Some central\<rparr>"
    by (simp add: date_eval)
  show "\<not> documented_format (u ''2025-5-3'')"
    by (simp add: documented_format_def u_def ascii_digit_def)
  show "pubdate_of (u ''2025-05-03 9:05'') =
     Inr \<lparr>year = 2025, month = 5, day = 3, hour = 9, minute = 5, second = 0,
          tzinfo = Some central\<rparr>"
    by (simp add: date_eval)
  show "\<not> documented_format (u ''2025-05-03 9:05'')"
    by (simp add: documented_format_def u_def ascii_digit_def)
  show "documented_format (iso_date y m d)" by (rule documented_iso)
  show "documented_format (iso_date_time y m d h mi)" by (rule documented_iso)
  show "pubdate_of (iso_date y m d) =
        Inr \<lparr>year = y, month = m, day = d, hour = 0, minute = 0, second = 0,
             tzinfo = Some central\<rparr>"
    if "valid_date y m d"
    by (simp add: pubdate_of_def strptime_iso_date [OF that] replace_tzinfo_def)
  show "pubdate_of (iso_date_time y m d h mi) =
        Inr \<lparr>year = y, month = m, day = d, hour = h, minute = mi, second = 0,
             tzinfo = Some central\<rparr>"
    if "valid_date y m d \<and> h < 24 \<and> mi < 60"
    using that by (simp add: pubdate_of_def strptime_iso_date_time replace_tzinfo_def)
qed

theorem date_parser_accepts_unpadded_fields_witness:
  "valid_date 2024 2 29 \<and> (14::nat) < 24 \<and> (30::nat) < 60 \<and>
   iso_date 2024 2 29 = u ''2024-02-29'' \<and>
   iso_date_time 2024 2 29 14 30 = u ''2024-02-29 14:30'' \<and>
   pubdate_of (iso_date 2024 2 29) =
     Inr \<lparr>year = 2024, month = 2, day = 29, hour = 0, minute = 0, second = 0,
          tzinfo = Some central\<rparr> \<and>
   pubdate_of (iso_date_time 2024 2 29 14 30) =
     Inr \<lparr>year = 2024, month = 2, day = 29, hour = 14, minute = 30, second = 0,
          tzinfo = Some central\<rparr>"
proof -
  have v: "valid_date 2024 2 29"
    by (simp add: valid_date_def days_in_month_def is_leap_def)
  have s: "iso_date 2024 2 29 = u ''2024-02-29''"
    "iso_date_time 2024 2 29 14 30 = u ''2024-02-29 14:30''"
    by (simp_all add: iso_date_time_def iso_date_def pad2_def pad4_def u_def)
  from date_parser_accepts_unpadded_fields [of 2024 2 29 14 30] v s show ?thesis by simp
qed


section \<open>Claims about the number of items\<close>




end
